theory Spec2Isabelle
  imports Complex_Main "HOL-Library.Word" "HOL-Library.While_Combinator"
begin

section \<open>Keccak256: digests and their hexadecimal text\<close>

text \<open>
  The source (\<^verbatim>\<open>cpp/crypto-algorithms/keccak256.cpp\<close>) works on \<^verbatim>\<open>std::string\<close>
  (a sequence of 8-bit characters, here \<^typ>\<open>string\<close>) and on
  \<^verbatim>\<open>std::vector<unsigned char>\<close> (here a list of 8-bit words).

  The digest itself is computed by OpenSSL (\<^verbatim>\<open>EVP_DigestInit_ex\<close>,
  \<^verbatim>\<open>EVP_DigestUpdate\<close>, \<^verbatim>\<open>EVP_DigestFinal_ex\<close> on \<^verbatim>\<open>EVP_sha3_256()\<close>),
  which is not code of the repository. Every function below takes that primitive as
  the parameter \<open>evp\<close>: the bytes the library writes for a given input.
\<close>

type_synonym byte = "8 word"
type_synonym digest_fn = "string \<Rightarrow> byte list"

text \<open>
  Modelled from the spec: \<^verbatim>\<open>EVP_MD_size(EVP_sha3_256())\<close>, a constant of the
  OpenSSL headers; the spec fixes the digest at 32 bytes.
\<close>

definition EVP_MD_size :: nat where
  "EVP_MD_size = 32"

text \<open>
  \<^verbatim>\<open>hashToBytes\<close>: the result vector is created with \<^verbatim>\<open>EVP_MD_size(md)\<close> zero bytes,
  the library writes the digest into it from the start, and the vector is returned with
  the size it was created with. The library writes \<^verbatim>\<open>EVP_MD_size(md)\<close> bytes; the model
  keeps the vector at that size for every function passed as \<open>evp\<close>.
\<close>

definition hashToBytes :: "digest_fn \<Rightarrow> string \<Rightarrow> byte list" where
  "hashToBytes evp input =
     (let buffer = replicate EVP_MD_size (0 :: byte);
          written = evp input
      in take EVP_MD_size written @ drop (length written) buffer)"

text \<open>
  \<^verbatim>\<open>ss << std::hex << std::setw(2) << std::setfill('0') << (int)byte\<close>:
  the integer is written in base 16 with lowercase digits and no prefix, then padded
  on the left with the fill character up to the field width 2.
\<close>

definition hex_digit :: "nat \<Rightarrow> char" where
  "hex_digit d = ''0123456789abcdef'' ! d"

fun hex_of_nat :: "nat \<Rightarrow> string" where
  "hex_of_nat n =
     (if n < 16 then [hex_digit n] else hex_of_nat (n div 16) @ [hex_digit (n mod 16)])"

declare hex_of_nat.simps [simp del]

definition setw_fill :: "nat \<Rightarrow> char \<Rightarrow> string \<Rightarrow> string" where
  "setw_fill w c s = replicate (w - length s) c @ s"

definition put_hex_byte :: "byte \<Rightarrow> string" where
  "put_hex_byte b = setw_fill 2 (CHR ''0'') (hex_of_nat (unat b))"

definition bytesToHex :: "byte list \<Rightarrow> string" where
  "bytesToHex bytes = foldl (\<lambda>ss b. ss @ put_hex_byte b) ''0x'' bytes"

definition hash :: "digest_fn \<Rightarrow> string \<Rightarrow> string" where
  "hash evp input = bytesToHex (hashToBytes evp input)"

text \<open>
  \<^verbatim>\<open>publicKeyToAddress\<close>: the loop index is a \<^verbatim>\<open>size_t\<close> that starts at
  \<^verbatim>\<open>hash.size() - 20\<close>, an unsigned subtraction (it wraps below 20), and runs while
  \<^verbatim>\<open>i < hash.size()\<close>.
\<close>

function address_loop :: "byte list \<Rightarrow> nat \<Rightarrow> string \<Rightarrow> string" where
  "address_loop digest i ss =
     (if i < length digest then address_loop digest (i + 1) (ss @ put_hex_byte (digest ! i))
      else ss)"
  by pat_completeness auto
termination
  by (relation "measure (\<lambda>(digest, i, ss). length digest - i)") auto

declare address_loop.simps [simp del]

definition publicKeyToAddress :: "digest_fn \<Rightarrow> string \<Rightarrow> string" where
  "publicKeyToAddress evp publicKey =
     (let digest = hashToBytes evp publicKey
      in address_loop digest (unat ((of_nat (length digest) :: 64 word) - 20)) ''0x'')"

section \<open>EthereumCrypto\<close>

text \<open>
  \<^verbatim>\<open>verifySignature\<close> writes two lines to standard output and returns a \<^verbatim>\<open>bool\<close>;
  the model returns the text written together with the result.
\<close>

definition endl :: string where
  "endl = [CHR 0x0A]"

definition verifySignature :: "digest_fn \<Rightarrow> string \<Rightarrow> string \<Rightarrow> string \<Rightarrow> string \<times> bool" where
  "verifySignature evp message signature publicKey =
     (let messageHash = hashToBytes evp message
      in (''Message hash: '' @ bytesToHex messageHash @ endl @
          ''Signature verification requires libsecp256k1'' @ endl,
          True))"

section \<open>MerkleTree\<close>

record MerkleTree =
  leaves :: "string list"
  levels :: "string list list"

text \<open>The \<^verbatim>\<open>for\<close> loop of \<^verbatim>\<open>buildTree\<close> over the current level, two indices at a time.\<close>

function pair_loop :: "digest_fn \<Rightarrow> string list \<Rightarrow> nat \<Rightarrow> string list \<Rightarrow> string list" where
  "pair_loop evp currentLevel i newLevel =
     (if i < length currentLevel then
        (if i + 1 < length currentLevel then
           pair_loop evp currentLevel (i + 2)
             (newLevel @ [hash evp (currentLevel ! i @ currentLevel ! (i + 1))])
         else
           pair_loop evp currentLevel (i + 2)
             (newLevel @ [hash evp (currentLevel ! i @ currentLevel ! i)]))
      else newLevel)"
  by pat_completeness auto
termination
  by (relation "measure (\<lambda>(evp, currentLevel, i, newLevel). length currentLevel - i)") auto

declare pair_loop.simps [simp del]

lemma length_pair_loop:
  "length (pair_loop evp cur i new) = length new + (length cur - i + 1) div 2"
proof (induction evp cur i new rule: pair_loop.induct)
  case (1 evp cur i new)
  show ?case
  proof (cases "i < length cur")
    case False
    then show ?thesis by (subst pair_loop.simps) simp
  next
    case lt: True
    show ?thesis
    proof (cases "i + 1 < length cur")
      case True
      have "length (pair_loop evp cur (i + 2) (new @ [hash evp (cur ! i @ cur ! (i + 1))]))
            = length new + 1 + (length cur - (i + 2) + 1) div 2"
        using "1.IH"(1) [OF lt True] by simp
      with lt True show ?thesis
        by (subst pair_loop.simps) auto
    next
      case False
      have "length (pair_loop evp cur (i + 2) (new @ [hash evp (cur ! i @ cur ! i)]))
            = length new + 1 + (length cur - (i + 2) + 1) div 2"
        using "1.IH"(2) [OF lt False] by simp
      with lt False show ?thesis
        by (subst pair_loop.simps) auto
    qed
  qed
qed

text \<open>
  The \<^verbatim>\<open>while (levels.back().size() > 1)\<close> loop of \<^verbatim>\<open>buildTree\<close>: each round
  reduces the last level and appends the result.
\<close>

definition reduce_step :: "digest_fn \<Rightarrow> string list list \<Rightarrow> string list list" where
  "reduce_step evp lvls = lvls @ [pair_loop evp (last lvls) 0 []]"

function build_loop :: "digest_fn \<Rightarrow> string list list \<Rightarrow> string list list" where
  "build_loop evp lvls =
     (if 1 < length (last lvls) then build_loop evp (reduce_step evp lvls) else lvls)"
  by pat_completeness auto
termination
  by (relation "measure (\<lambda>(evp, lvls). length (last lvls))")
     (auto simp: reduce_step_def length_pair_loop)

declare build_loop.simps [simp del]

definition buildTree :: "digest_fn \<Rightarrow> MerkleTree \<Rightarrow> MerkleTree" where
  "buildTree evp t = t\<lparr>levels := build_loop evp (levels t @ [leaves t])\<rparr>"

text \<open>
  The constructor: the members start empty, every item's hash is pushed onto
  \<^verbatim>\<open>leaves\<close> in input order, then \<^verbatim>\<open>buildTree()\<close> runs.
\<close>

definition MerkleTree_new :: "digest_fn \<Rightarrow> string list \<Rightarrow> MerkleTree" where
  "MerkleTree_new evp data =
     buildTree evp
       (foldl (\<lambda>t item. t\<lparr>leaves := leaves t @ [hash evp item]\<rparr>)
          \<lparr>leaves = [], levels = []\<rparr> data)"

text \<open>
  \<^verbatim>\<open>getRoot\<close> reads \<^verbatim>\<open>levels.back()[0]\<close> with no check. \<^verbatim>\<open>back()\<close> of an empty
  vector and \<^verbatim>\<open>[0]\<close> of an empty vector are out-of-bounds accesses; the model
  returns \<open>None\<close> for them.
\<close>

definition getRoot :: "MerkleTree \<Rightarrow> string option" where
  "getRoot t =
     (if levels t = [] then None
      else if last (levels t) = [] then None
      else Some (last (levels t) ! 0))"

text \<open>
  \<^verbatim>\<open>printTree\<close>: a heading, then for every level index \<^verbatim>\<open>i\<close> (a \<^verbatim>\<open>size_t\<close>
  written in decimal) a line naming the level and one indented line per hash, then the
  root as \<^verbatim>\<open>getRoot()\<close> returns it.
\<close>

definition dec_digit :: "nat \<Rightarrow> char" where
  "dec_digit d = ''0123456789'' ! d"

fun dec_of_nat :: "nat \<Rightarrow> string" where
  "dec_of_nat n =
     (if n < 10 then [dec_digit n] else dec_of_nat (n div 10) @ [dec_digit (n mod 10)])"

declare dec_of_nat.simps [simp del]

function print_levels :: "string list list \<Rightarrow> nat \<Rightarrow> string \<Rightarrow> string" where
  "print_levels lvls i out =
     (if i < length lvls then
        print_levels lvls (i + 1)
          (foldl (\<lambda>out' h. out' @ ''  '' @ h @ endl)
             (out @ ''Level '' @ dec_of_nat i @ '':'' @ endl) (lvls ! i))
      else out)"
  by pat_completeness auto
termination
  by (relation "measure (\<lambda>(lvls, i, out). length lvls - i)") auto

declare print_levels.simps [simp del]

definition printTree :: "MerkleTree \<Rightarrow> string option" where
  "printTree t =
     (let out = print_levels (levels t) 0 (endl @ ''=== Merkle Tree ==='' @ endl)
      in case getRoot t of
           None \<Rightarrow> None
         | Some r \<Rightarrow> Some (out @ endl @ ''Merkle Root: '' @ r @ endl))"

text \<open>
  The member functions the class declares after \<^verbatim>\<open>public:\<close>, as calls on an object:
  each yields the object afterwards and what the call produced. \<^verbatim>\<open>getRoot\<close> and
  \<^verbatim>\<open>printTree\<close> are declared \<^verbatim>\<open>const\<close>; \<^verbatim>\<open>buildTree\<close> is not.
\<close>

datatype member_call = Call_getRoot | Call_printTree | Call_buildTree

datatype outcome = Returned string | Printed string | Finished | OutOfBounds

fun invoke :: "digest_fn \<Rightarrow> member_call \<Rightarrow> MerkleTree \<Rightarrow> MerkleTree \<times> outcome" where
  "invoke evp Call_getRoot t =
     (t, case getRoot t of None \<Rightarrow> OutOfBounds | Some r \<Rightarrow> Returned r)"
| "invoke evp Call_printTree t =
     (t, case printTree t of None \<Rightarrow> OutOfBounds | Some out \<Rightarrow> Printed out)"
| "invoke evp Call_buildTree t = (buildTree evp t, Finished)"

section \<open>A stand-in digest for concrete evaluation\<close>

text \<open>
  The theorems below hold for every digest function. To run the definitions on concrete
  inputs some function has to be supplied; this one writes the character codes of its
  input. It is not a cryptographic hash and no theorem depends on it.
\<close>

definition codes_evp :: digest_fn where
  "codes_evp input = map (\<lambda>c. of_nat (of_char c)) input"

section \<open>Facts about the hexadecimal text and the digest\<close>

lemma hex_of_nat_small: "n < 16 \<Longrightarrow> hex_of_nat n = [hex_digit n]"
  by (subst hex_of_nat.simps) simp

lemma hex_of_nat_byte:
  "16 \<le> n \<Longrightarrow> n < 256 \<Longrightarrow> hex_of_nat n = [hex_digit (n div 16), hex_digit (n mod 16)]"
  by (subst hex_of_nat.simps) (simp add: hex_of_nat_small less_mult_imp_div_less)

lemma put_hex_byte_eq:
  "put_hex_byte b = [hex_digit (unat b div 16), hex_digit (unat b mod 16)]"
proof -
  have lt: "unat b < 256" using unsigned_less [of b] by simp
  show ?thesis
  proof (cases "unat b < 16")
    case True
    then show ?thesis
      by (simp add: put_hex_byte_def setw_fill_def hex_of_nat_small hex_digit_def)
  next
    case False
    with lt show ?thesis
      by (simp add: put_hex_byte_def setw_fill_def hex_of_nat_byte)
  qed
qed

lemma hex_digit_in: "d < 16 \<Longrightarrow> hex_digit d \<in> set ''0123456789abcdef''"
  unfolding hex_digit_def by (rule nth_mem) simp

lemma bytesToHex_foldl:
  "foldl (\<lambda>ss b. ss @ put_hex_byte b) acc bytes = acc @ concat (map put_hex_byte bytes)"
  by (induction bytes arbitrary: acc) simp_all

lemma bytesToHex_eq: "bytesToHex bytes = ''0x'' @ concat (map put_hex_byte bytes)"
  unfolding bytesToHex_def by (rule bytesToHex_foldl)

lemma length_concat_hex: "length (concat (map put_hex_byte bytes)) = 2 * length bytes"
  by (induction bytes) (simp_all add: put_hex_byte_eq)

lemma length_hashToBytes: "length (hashToBytes evp input) = 32"
  by (simp add: hashToBytes_def EVP_MD_size_def Let_def)

lemma address_loop_eq:
  "address_loop digest i ss = ss @ concat (map put_hex_byte (drop i digest))"
proof (induction digest i ss rule: address_loop.induct)
  case (1 digest i ss)
  show ?case
  proof (cases "i < length digest")
    case True
    then have "drop i digest = digest ! i # drop (i + 1) digest"
      by (simp add: Cons_nth_drop_Suc)
    with True "1.IH" [OF True] show ?thesis
      by (subst address_loop.simps) simp
  next
    case False
    then show ?thesis by (subst address_loop.simps) simp
  qed
qed

lemma ceil_half: "\<lceil>real n / 2\<rceil> = int ((n + 1) div 2)"
  by linarith

section \<open>Facts about the loops of the tree construction\<close>

lemma pair_loop_nth:
  "k < length (pair_loop evp cur i new) \<Longrightarrow>
   pair_loop evp cur i new ! k =
     (if k < length new then new ! k
      else if i + 2 * (k - length new) + 1 < length cur
           then hash evp (cur ! (i + 2 * (k - length new)) @ cur ! (i + 2 * (k - length new) + 1))
           else hash evp (cur ! (i + 2 * (k - length new)) @ cur ! (i + 2 * (k - length new))))"
proof (induction evp cur i new rule: pair_loop.induct)
  case (1 evp cur i new)
  show ?case
  proof (cases "i < length cur")
    case False
    then have "pair_loop evp cur i new = new"
      by (subst pair_loop.simps) simp
    with False "1.prems" show ?thesis by simp
  next
    case lt: True
    show ?thesis
    proof (cases "i + 1 < length cur")
      case True
      let ?new = "new @ [hash evp (cur ! i @ cur ! (i + 1))]"
      have unf: "pair_loop evp cur i new = pair_loop evp cur (i + 2) ?new"
        using lt True by (subst pair_loop.simps) simp
      have k: "k < length (pair_loop evp cur (i + 2) ?new)"
        using "1.prems" unf by simp
      note IH = "1.IH"(1) [OF lt True k]
      consider "k < length new" | "k = length new" | "length new < k" by linarith
      then show ?thesis
      proof cases
        case 1
        with IH unf show ?thesis by (simp add: nth_append)
      next
        case 2
        with IH unf True show ?thesis by (simp add: nth_append)
      next
        case 3
        then obtain d where d: "k = Suc (length new) + d"
          using less_imp_Suc_add by auto
        from IH unf show ?thesis unfolding d by (simp add: nth_append)
      qed
    next
      case False
      let ?new = "new @ [hash evp (cur ! i @ cur ! i)]"
      have unf: "pair_loop evp cur i new = pair_loop evp cur (i + 2) ?new"
        using lt False by (subst pair_loop.simps) simp
      have k: "k < length (pair_loop evp cur (i + 2) ?new)"
        using "1.prems" unf by simp
      note IH = "1.IH"(2) [OF lt False k]
      consider "k < length new" | "k = length new" | "length new < k" by linarith
      then show ?thesis
      proof cases
        case 1
        with IH unf show ?thesis by (simp add: nth_append)
      next
        case 2
        with IH unf False show ?thesis by (simp add: nth_append)
      next
        case 3
        then obtain d where d: "k = Suc (length new) + d"
          using less_imp_Suc_add by auto
        from IH unf show ?thesis unfolding d by (simp add: nth_append)
      qed
    qed
  qed
qed

lemma reduce_nth:
  "k < (length cur + 1) div 2 \<Longrightarrow>
   pair_loop evp cur 0 [] ! k =
     (if 2 * k + 1 < length cur then hash evp (cur ! (2 * k) @ cur ! (2 * k + 1))
      else hash evp (cur ! (2 * k) @ cur ! (2 * k)))"
  using pair_loop_nth [of k evp cur 0 "[]"] by (simp add: length_pair_loop)

lemma build_loop_stop: "\<not> 1 < length (last lvls) \<Longrightarrow> build_loop evp lvls = lvls"
  by (subst build_loop.simps) simp

lemma build_loop_go:
  "1 < length (last lvls) \<Longrightarrow> build_loop evp lvls = build_loop evp (reduce_step evp lvls)"
  by (subst build_loop.simps) simp

lemma build_loop_prefix: "\<exists>ext. build_loop evp lvls = lvls @ ext"
proof (induction evp lvls rule: build_loop.induct)
  case (1 evp lvls)
  show ?case
  proof (cases "1 < length (last lvls)")
    case True
    from "1.IH" [OF True] obtain ext where
      "build_loop evp (reduce_step evp lvls) = reduce_step evp lvls @ ext" by blast
    with True show ?thesis
      by (simp add: build_loop_go reduce_step_def)
  next
    case False
    then show ?thesis by (simp add: build_loop_stop)
  qed
qed

lemma build_loop_last: "length (last (build_loop evp lvls)) \<le> 1"
proof (induction evp lvls rule: build_loop.induct)
  case (1 evp lvls)
  show ?case
  proof (cases "1 < length (last lvls)")
    case True
    with "1.IH" [OF True] show ?thesis by (simp add: build_loop_go)
  next
    case False
    then show ?thesis by (simp add: build_loop_stop)
  qed
qed

lemma build_loop_last_nonempty:
  "last lvls \<noteq> [] \<Longrightarrow> last (build_loop evp lvls) \<noteq> []"
proof (induction evp lvls rule: build_loop.induct)
  case (1 evp lvls)
  show ?case
  proof (cases "1 < length (last lvls)")
    case True
    then have "length (last (reduce_step evp lvls)) \<noteq> 0"
      by (simp add: reduce_step_def length_pair_loop)
    then have "last (reduce_step evp lvls) \<noteq> []" by (simp del: length_0_conv)
    with "1.IH" [OF True] True show ?thesis by (simp add: build_loop_go)
  next
    case False
    with "1.prems" show ?thesis by (simp add: build_loop_stop)
  qed
qed

lemma build_loop_links:
  assumes "lvls \<noteq> []"
      and "\<And>i. i + 1 < length lvls \<Longrightarrow> Q (lvls ! i) (lvls ! (i + 1))"
      and "\<And>l. 1 < length l \<Longrightarrow> Q l (pair_loop evp l 0 [])"
      and "i + 1 < length (build_loop evp lvls)"
  shows "Q (build_loop evp lvls ! i) (build_loop evp lvls ! (i + 1))"
  using assms
proof (induction evp lvls rule: build_loop.induct)
  case (1 evp lvls)
  show ?case
  proof (cases "1 < length (last lvls)")
    case False
    with "1.prems" show ?thesis by (simp add: build_loop_stop)
  next
    case True
    have ne: "reduce_step evp lvls \<noteq> []" by (simp add: reduce_step_def)
    have step: "Q (reduce_step evp lvls ! j) (reduce_step evp lvls ! (j + 1))"
      if "j + 1 < length (reduce_step evp lvls)" for j
    proof (cases "j + 1 < length lvls")
      case True
      with "1.prems"(2) [OF True] show ?thesis
        by (simp add: reduce_step_def nth_append)
    next
      case False
      with that have j: "j + 1 = length lvls" by (simp add: reduce_step_def)
      then have "j = length lvls - 1" by simp
      then have "lvls ! j = last lvls"
        using "1.prems"(1) by (simp add: last_conv_nth)
      with j "1.prems"(3) [OF True] show ?thesis
        by (simp add: reduce_step_def nth_append)
    qed
    have "Q (build_loop evp (reduce_step evp lvls) ! i)
            (build_loop evp (reduce_step evp lvls) ! (i + 1))"
      using "1.prems"(4) True
      by (intro "1.IH" [OF True ne step "1.prems"(3)]) (simp_all add: build_loop_go)
    with True show ?thesis by (simp add: build_loop_go)
  qed
qed

lemma build_loop_while:
  "while_option (\<lambda>l. 1 < length (last l)) (reduce_step evp) lvls = Some (build_loop evp lvls)"
proof (induction evp lvls rule: build_loop.induct)
  case (1 evp lvls)
  show ?case
  proof (cases "1 < length (last lvls)")
    case True
    with "1.IH" [OF True] show ?thesis
      by (subst while_option_unfold) (simp add: build_loop_go)
  next
    case False
    then show ?thesis
      by (subst while_option_unfold) (simp add: build_loop_stop)
  qed
qed

lemma leaves_foldl:
  "foldl (\<lambda>t item. t\<lparr>leaves := leaves t @ [hash evp item]\<rparr>) t0 data
   = t0\<lparr>leaves := leaves t0 @ map (hash evp) data\<rparr>"
  by (induction data arbitrary: t0) simp_all

lemma MerkleTree_new_eq:
  "MerkleTree_new evp data =
     \<lparr>leaves = map (hash evp) data, levels = build_loop evp [map (hash evp) data]\<rparr>"
  by (simp add: MerkleTree_new_def leaves_foldl buildTree_def)

section \<open>Facts about a constructed tree\<close>

lemma levels_new: "levels (MerkleTree_new evp data) = build_loop evp [map (hash evp) data]"
  by (simp add: MerkleTree_new_eq)

lemma levels_new_nonempty: "levels (MerkleTree_new evp data) \<noteq> []"
  using build_loop_prefix [of evp "[map (hash evp) data]"] by (auto simp: levels_new)

lemma levels_new_0: "levels (MerkleTree_new evp data) ! 0 = map (hash evp) data"
  using build_loop_prefix [of evp "[map (hash evp) data]"] by (auto simp: levels_new)

lemma levels_new_link:
  assumes "i + 1 < length (levels (MerkleTree_new evp data))"
  shows "1 < length (levels (MerkleTree_new evp data) ! i) \<and>
         levels (MerkleTree_new evp data) ! (i + 1)
           = pair_loop evp (levels (MerkleTree_new evp data) ! i) 0 []"
  using assms unfolding levels_new
  by (intro build_loop_links [where Q = "\<lambda>l l'. 1 < length l \<and> l' = pair_loop evp l 0 []"])
     simp_all

lemma levels_new_last_le: "length (last (levels (MerkleTree_new evp data))) \<le> 1"
  using build_loop_last [of evp "[map (hash evp) data]"] by (simp add: levels_new)

lemma levels_new_last_ne:
  "data \<noteq> [] \<Longrightarrow> last (levels (MerkleTree_new evp data)) \<noteq> []"
  by (simp add: levels_new build_loop_last_nonempty)

lemma levels_new_reduced:
  assumes "i < length (levels (MerkleTree_new evp data))"
      and "1 < length (levels (MerkleTree_new evp data) ! i)"
  shows "i + 1 < length (levels (MerkleTree_new evp data))"
proof (rule ccontr)
  assume "\<not> i + 1 < length (levels (MerkleTree_new evp data))"
  with assms(1) have "i = length (levels (MerkleTree_new evp data)) - 1" by simp
  then have "levels (MerkleTree_new evp data) ! i = last (levels (MerkleTree_new evp data))"
    using levels_new_nonempty [of evp data] by (simp add: last_conv_nth)
  with assms(2) levels_new_last_le [of evp data] show False by simp
qed

lemma put_hex_byte_set: "set (put_hex_byte b) \<subseteq> set ''0123456789abcdef''"
proof -
  have "unat b < 256" using unsigned_less [of b] by simp
  then have "unat b div 16 < 16" by (simp add: less_mult_imp_div_less)
  then have "hex_digit (unat b div 16) \<in> set ''0123456789abcdef''"
    by (rule hex_digit_in)
  moreover have "hex_digit (unat b mod 16) \<in> set ''0123456789abcdef''"
    by (rule hex_digit_in) simp
  ultimately show ?thesis unfolding put_hex_byte_eq by simp
qed

lemma concat_hex_set: "set (concat (map put_hex_byte bytes)) \<subseteq> set ''0123456789abcdef''"
  using put_hex_byte_set by (induction bytes) auto

lemma hash_eq: "hash evp x = ''0x'' @ concat (map put_hex_byte (hashToBytes evp x))"
  by (simp add: hash_def bytesToHex_eq)

lemma hash_text:
  "take 2 (hash evp x) = ''0x'' \<and> length (hash evp x) = 66 \<and>
   set (drop 2 (hash evp x)) \<subseteq> set ''0123456789abcdef''"
  using concat_hex_set [of "hashToBytes evp x"]
  by (simp add: hash_eq length_concat_hex length_hashToBytes)

lemma level_elems_hash:
  assumes "i < length (levels (MerkleTree_new evp data))"
      and "k < length (levels (MerkleTree_new evp data) ! i)"
  shows "\<exists>x. levels (MerkleTree_new evp data) ! i ! k = hash evp x"
proof (cases i)
  case 0
  with assms(2) show ?thesis by (auto simp: levels_new_0)
next
  case (Suc j)
  with assms(1) have j: "j + 1 < length (levels (MerkleTree_new evp data))" by simp
  from levels_new_link [OF j] have
    eq: "levels (MerkleTree_new evp data) ! i
           = pair_loop evp (levels (MerkleTree_new evp data) ! j) 0 []"
    using Suc by simp
  with assms(2) have "k < (length (levels (MerkleTree_new evp data) ! j) + 1) div 2"
    by (simp add: length_pair_loop)
  from reduce_nth [OF this, of evp] show ?thesis
    unfolding eq by (metis (full_types))
qed

section \<open>The claims of the specification\<close>

text \<open>
  Claim C1. In a constructed tree, every level that still holds at least two elements is
  followed by a next level, and for every pair of positions \<open>(2k, 2k+1)\<close> of that level
  the element at position \<open>k\<close> of the next level is the hash of the left element's text
  followed by the right element's text. Both elements are digests in their textual form:
  the two characters \<open>0x\<close> followed by 64 lowercase hexadecimal digits, so the digest
  function is applied to the concatenated text and not to the raw digest bytes.
\<close>

theorem pair_node_is_hash_of_hex_text:
  assumes "i < length (levels (MerkleTree_new evp data))"
      and "2 \<le> length (levels (MerkleTree_new evp data) ! i)"
      and "2 * k + 1 < length (levels (MerkleTree_new evp data) ! i)"
  shows "i + 1 < length (levels (MerkleTree_new evp data)) \<and>
         k < length (levels (MerkleTree_new evp data) ! (i + 1)) \<and>
         levels (MerkleTree_new evp data) ! (i + 1) ! k
           = bytesToHex (hashToBytes evp
               (levels (MerkleTree_new evp data) ! i ! (2 * k) @
                levels (MerkleTree_new evp data) ! i ! (2 * k + 1))) \<and>
         (\<exists>x y. levels (MerkleTree_new evp data) ! i ! (2 * k)
                  = ''0x'' @ concat (map put_hex_byte (hashToBytes evp x)) \<and>
                levels (MerkleTree_new evp data) ! i ! (2 * k + 1)
                  = ''0x'' @ concat (map put_hex_byte (hashToBytes evp y))) \<and>
         take 2 (levels (MerkleTree_new evp data) ! i ! (2 * k)) = ''0x'' \<and>
         take 2 (levels (MerkleTree_new evp data) ! i ! (2 * k + 1)) = ''0x'' \<and>
         length (levels (MerkleTree_new evp data) ! i ! (2 * k)) = 66 \<and>
         length (levels (MerkleTree_new evp data) ! i ! (2 * k + 1)) = 66 \<and>
         set (drop 2 (levels (MerkleTree_new evp data) ! i ! (2 * k)))
           \<subseteq> set ''0123456789abcdef'' \<and>
         set (drop 2 (levels (MerkleTree_new evp data) ! i ! (2 * k + 1)))
           \<subseteq> set ''0123456789abcdef''"
proof -
  let ?L = "levels (MerkleTree_new evp data)"
  from assms(2) have gt: "1 < length (?L ! i)" by simp
  have next_lvl: "i + 1 < length ?L"
    using assms(1) gt by (rule levels_new_reduced)
  from levels_new_link [OF next_lvl]
  have eq: "?L ! (i + 1) = pair_loop evp (?L ! i) 0 []" by simp
  have k: "k < (length (?L ! i) + 1) div 2" using assms(3) by linarith
  then have klen: "k < length (?L ! (i + 1))"
    unfolding eq by (simp add: length_pair_loop)
  have node: "?L ! (i + 1) ! k
                = bytesToHex (hashToBytes evp (?L ! i ! (2 * k) @ ?L ! i ! (2 * k + 1)))"
    unfolding eq using reduce_nth [OF k, of evp] assms(3) by (simp add: hash_def)
  have k0: "2 * k < length (?L ! i)" using assms(3) by simp
  from level_elems_hash [OF assms(1) k0]
  obtain x where x: "?L ! i ! (2 * k) = hash evp x" by blast
  from level_elems_hash [OF assms(1) assms(3)]
  obtain y where y: "?L ! i ! (2 * k + 1) = hash evp y" by blast
  have ex: "\<exists>x y. ?L ! i ! (2 * k) = ''0x'' @ concat (map put_hex_byte (hashToBytes evp x)) \<and>
                  ?L ! i ! (2 * k + 1) = ''0x'' @ concat (map put_hex_byte (hashToBytes evp y))"
    using x y unfolding hash_eq by blast
  from hash_text [of evp x] hash_text [of evp y] next_lvl klen node ex
  show ?thesis unfolding x [symmetric] y [symmetric] by blast
qed

theorem pair_node_is_hash_of_hex_text_witness:
  "0 < length (levels (MerkleTree_new codes_evp [''a'', ''b''])) \<and>
   2 \<le> length (levels (MerkleTree_new codes_evp [''a'', ''b'']) ! 0) \<and>
   2 * 0 + 1 < length (levels (MerkleTree_new codes_evp [''a'', ''b'']) ! 0) \<and>
   levels (MerkleTree_new codes_evp [''a'', ''b'']) ! (0 + 1) ! 0
     = bytesToHex (hashToBytes codes_evp
         (levels (MerkleTree_new codes_evp [''a'', ''b'']) ! 0 ! (2 * 0) @
          levels (MerkleTree_new codes_evp [''a'', ''b'']) ! 0 ! (2 * 0 + 1)))"
proof -
  have h1: "0 < length (levels (MerkleTree_new codes_evp [''a'', ''b'']))"
    by code_simp
  have h2: "2 \<le> length (levels (MerkleTree_new codes_evp [''a'', ''b'']) ! 0)"
    by code_simp
  have h3: "2 * 0 + 1 < length (levels (MerkleTree_new codes_evp [''a'', ''b'']) ! 0)"
    by code_simp
  from pair_node_is_hash_of_hex_text [OF h1 h2 h3] h1 h2 h3
  show ?thesis by blast
qed

text \<open>
  Claim C2. A constructed tree has a level 0 whose length is the length of the input, every
  following level has \<open>\<lceil>n / 2\<rceil>\<close> elements where \<open>n\<close> is the length of the level before
  it, and for a non-empty input the final level has exactly one element.
\<close>

theorem level_lengths:
  "levels (MerkleTree_new evp data) \<noteq> [] \<and>
   length (levels (MerkleTree_new evp data) ! 0) = length data \<and>
   (\<forall>i. i + 1 < length (levels (MerkleTree_new evp data)) \<longrightarrow>
        int (length (levels (MerkleTree_new evp data) ! (i + 1)))
          = \<lceil>real (length (levels (MerkleTree_new evp data) ! i)) / 2\<rceil>) \<and>
   (data \<noteq> [] \<longrightarrow> length (last (levels (MerkleTree_new evp data))) = 1)"
proof -
  let ?L = "levels (MerkleTree_new evp data)"
  have a: "?L \<noteq> []" by (rule levels_new_nonempty)
  have b: "length (?L ! 0) = length data" by (simp add: levels_new_0)
  have c: "int (length (?L ! (i + 1))) = \<lceil>real (length (?L ! i)) / 2\<rceil>"
    if "i + 1 < length ?L" for i
  proof -
    from levels_new_link [OF that]
    have "length (?L ! (i + 1)) = (length (?L ! i) + 1) div 2"
      by (simp add: length_pair_loop)
    then show ?thesis by (simp only: ceil_half)
  qed
  have d: "length (last ?L) = 1" if "data \<noteq> []"
  proof -
    from levels_new_last_ne [OF that, of evp] have "length (last ?L) \<noteq> 0" by simp
    with levels_new_last_le [of evp data] show ?thesis by linarith
  qed
  from a b c d show ?thesis by blast
qed

theorem level_lengths_witness:
  "0 + 1 < length (levels (MerkleTree_new codes_evp [''a'', ''b'', ''c''])) \<and>
   [''a'', ''b'', ''c''] \<noteq> [] \<and>
   length (levels (MerkleTree_new codes_evp [''a'', ''b'', ''c'']) ! 0) = 3 \<and>
   length (levels (MerkleTree_new codes_evp [''a'', ''b'', ''c'']) ! (0 + 1)) = 2 \<and>
   length (last (levels (MerkleTree_new codes_evp [''a'', ''b'', ''c'']))) = 1"
proof -
  have h1: "0 + 1 < length (levels (MerkleTree_new codes_evp [''a'', ''b'', ''c'']))"
    by code_simp
  have h2: "[''a'', ''b'', ''c''] \<noteq> ([] :: string list)" by simp
  from level_lengths [of codes_evp "[''a'', ''b'', ''c'']"] h1 h2
  have "length (levels (MerkleTree_new codes_evp [''a'', ''b'', ''c'']) ! 0) = 3"
   and "int (length (levels (MerkleTree_new codes_evp [''a'', ''b'', ''c'']) ! (0 + 1)))
          = \<lceil>real (length (levels (MerkleTree_new codes_evp [''a'', ''b'', ''c'']) ! 0)) / 2\<rceil>"
   and "length (last (levels (MerkleTree_new codes_evp [''a'', ''b'', ''c'']))) = 1"
    by simp_all
  with h1 h2 show ?thesis by (simp add: ceil_half)
qed

text \<open>The last element a reduction makes from a level of odd length.\<close>

lemma reduce_last_odd:
  assumes "odd (length l)"
  shows "last (pair_loop evp l 0 []) = hash evp (last l @ last l)"
proof -
  from assms obtain m where m: "length l = 2 * m + 1" by (auto elim: oddE)
  then have ne: "l \<noteq> []" by auto
  have len: "length (pair_loop evp l 0 []) = m + 1"
    by (simp add: length_pair_loop m)
  then have "pair_loop evp l 0 [] \<noteq> []" by auto
  then have "last (pair_loop evp l 0 []) = pair_loop evp l 0 [] ! m"
    by (simp add: last_conv_nth len)
  also have "\<dots> = hash evp (l ! (2 * m) @ l ! (2 * m))"
    using reduce_nth [of m l evp] by (simp add: m)
  also have "l ! (2 * m) = last l"
    using ne by (simp add: last_conv_nth m)
  finally show ?thesis .
qed

text \<open>
  Claim C3. The \<^verbatim>\<open>for\<close> loop of \<^verbatim>\<open>buildTree\<close> turns the last element of a level of
  odd length into the hash of that element's text followed by itself; so in a constructed
  tree every level of odd length that is reduced (it holds more than one element) is
  followed by a level whose last element is that hash. For the three items
  \<open>[A, B, C]\<close> the levels are the three leaf hashes, then the hash of the first two leaves
  and the hash of the third leaf with itself, then the hash of those two, which is the root.
\<close>

theorem odd_level_duplicates_last:
  "(odd (length l) \<longrightarrow> last (pair_loop evp l 0 []) = hash evp (last l @ last l)) \<and>
   (i < length (levels (MerkleTree_new evp data)) \<and>
    1 < length (levels (MerkleTree_new evp data) ! i) \<and>
    odd (length (levels (MerkleTree_new evp data) ! i)) \<longrightarrow>
      i + 1 < length (levels (MerkleTree_new evp data)) \<and>
      last (levels (MerkleTree_new evp data) ! (i + 1))
        = hash evp (last (levels (MerkleTree_new evp data) ! i) @
                    last (levels (MerkleTree_new evp data) ! i))) \<and>
   levels (MerkleTree_new evp [A, B, C]) =
     [[hash evp A, hash evp B, hash evp C],
      [hash evp (hash evp A @ hash evp B), hash evp (hash evp C @ hash evp C)],
      [hash evp (hash evp (hash evp A @ hash evp B) @ hash evp (hash evp C @ hash evp C))]] \<and>
   getRoot (MerkleTree_new evp [A, B, C]) =
     Some (hash evp (levels (MerkleTree_new evp [A, B, C]) ! 1 ! 0 @
                     levels (MerkleTree_new evp [A, B, C]) ! 1 ! 1))"
proof -
  let ?L = "levels (MerkleTree_new evp data)"
  have a: "odd (length l) \<longrightarrow> last (pair_loop evp l 0 []) = hash evp (last l @ last l)"
    by (simp add: reduce_last_odd)
  have b: "i + 1 < length ?L \<and> last (?L ! (i + 1)) = hash evp (last (?L ! i) @ last (?L ! i))"
    if i: "i < length ?L" and gt: "1 < length (?L ! i)" and od: "odd (length (?L ! i))"
  proof -
    have nxt: "i + 1 < length ?L" using i gt by (rule levels_new_reduced)
    from levels_new_link [OF nxt] have "?L ! (i + 1) = pair_loop evp (?L ! i) 0 []" by simp
    with nxt od show ?thesis by (simp only: reduce_last_odd simp_thms)
  qed
  have c: "levels (MerkleTree_new evp [A, B, C]) =
     [[hash evp A, hash evp B, hash evp C],
      [hash evp (hash evp A @ hash evp B), hash evp (hash evp C @ hash evp C)],
      [hash evp (hash evp (hash evp A @ hash evp B) @ hash evp (hash evp C @ hash evp C))]]"
    by (simp add: levels_new build_loop.simps reduce_step_def pair_loop.simps)
  have d: "getRoot (MerkleTree_new evp [A, B, C]) =
     Some (hash evp (levels (MerkleTree_new evp [A, B, C]) ! 1 ! 0 @
                     levels (MerkleTree_new evp [A, B, C]) ! 1 ! 1))"
    unfolding getRoot_def c by simp
  from a b c d show ?thesis by blast
qed

theorem odd_level_duplicates_last_witness:
  "odd (length [''x'', ''y'', ''z'']) \<and>
   last (pair_loop codes_evp [''x'', ''y'', ''z''] 0 []) = hash codes_evp (''z'' @ ''z'') \<and>
   0 < length (levels (MerkleTree_new codes_evp [''a'', ''b'', ''c''])) \<and>
   1 < length (levels (MerkleTree_new codes_evp [''a'', ''b'', ''c'']) ! 0) \<and>
   odd (length (levels (MerkleTree_new codes_evp [''a'', ''b'', ''c'']) ! 0)) \<and>
   last (levels (MerkleTree_new codes_evp [''a'', ''b'', ''c'']) ! (0 + 1))
     = hash codes_evp (last (levels (MerkleTree_new codes_evp [''a'', ''b'', ''c'']) ! 0) @
                       last (levels (MerkleTree_new codes_evp [''a'', ''b'', ''c'']) ! 0))"
proof -
  have h0: "odd (length [''x'', ''y'', ''z''])" by simp
  have h1: "0 < length (levels (MerkleTree_new codes_evp [''a'', ''b'', ''c'']))"
    by code_simp
  have h2: "1 < length (levels (MerkleTree_new codes_evp [''a'', ''b'', ''c'']) ! 0)"
    by code_simp
  have h3: "odd (length (levels (MerkleTree_new codes_evp [''a'', ''b'', ''c'']) ! 0))"
    by code_simp
  from odd_level_duplicates_last
         [of "[''x'', ''y'', ''z'']" codes_evp 0 "[''a'', ''b'', ''c'']"] h0 h1 h2 h3
  show ?thesis by simp
qed

text \<open>
  Claim C4. Level 0 of a constructed tree (and the stored leaves) is the list of the
  hashes of the input items, one per item and in input order; the digest function is
  applied to the item itself, with nothing put in front of it.
\<close>

theorem leaf_level_hashes_items:
  "leaves (MerkleTree_new evp data) = map (\<lambda>item. bytesToHex (hashToBytes evp item)) data \<and>
   levels (MerkleTree_new evp data) \<noteq> [] \<and>
   levels (MerkleTree_new evp data) ! 0
     = map (\<lambda>item. bytesToHex (hashToBytes evp item)) data \<and>
   length (levels (MerkleTree_new evp data) ! 0) = length data \<and>
   hashToBytes evp item = take 32 (evp item) @ replicate (32 - length (evp item)) 0"
proof -
  have h: "map (hash evp) data = map (\<lambda>item. bytesToHex (hashToBytes evp item)) data"
    by (simp add: hash_def)
  have a: "leaves (MerkleTree_new evp data)
             = map (\<lambda>item. bytesToHex (hashToBytes evp item)) data"
    using h by (simp add: MerkleTree_new_eq)
  have b: "levels (MerkleTree_new evp data) \<noteq> []" by (rule levels_new_nonempty)
  have c: "levels (MerkleTree_new evp data) ! 0
             = map (\<lambda>item. bytesToHex (hashToBytes evp item)) data"
    using h levels_new_0 [of evp data] by simp
  have d: "length (levels (MerkleTree_new evp data) ! 0) = length data"
    by (simp add: levels_new_0)
  have e: "hashToBytes evp item = take 32 (evp item) @ replicate (32 - length (evp item)) 0"
    by (simp add: hashToBytes_def EVP_MD_size_def Let_def)
  from a b c d e show ?thesis by blast
qed

text \<open>
  Claim C6. For a single item the tree has exactly one level, holding the hash of the
  item, and the root is that hash.
\<close>

theorem single_item_root_is_leaf:
  "MerkleTree_new evp [A] = \<lparr>leaves = [hash evp A], levels = [[hash evp A]]\<rparr> \<and>
   getRoot (MerkleTree_new evp [A]) = Some (hash evp A) \<and>
   length (levels (MerkleTree_new evp [A])) = 1"
proof -
  have "MerkleTree_new evp [A] = \<lparr>leaves = [hash evp A], levels = [[hash evp A]]\<rparr>"
    by (simp add: MerkleTree_new_eq build_loop_stop)
  then show ?thesis by (simp add: getRoot_def)
qed

text \<open>
  Claim C7. Whatever the public key, the digest has 32 bytes and \<^verbatim>\<open>publicKeyToAddress\<close>
  returns \<open>0x\<close> followed by the two-digit lowercase hexadecimal text of each of its last
  20 bytes: 40 hexadecimal digits, the last 40 of the text \<^verbatim>\<open>hash\<close> returns.
\<close>

theorem address_is_last_20_bytes:
  "length (hashToBytes evp pk) = 32 \<and>
   publicKeyToAddress evp pk
     = ''0x'' @ concat (map put_hex_byte
                 (drop (length (hashToBytes evp pk) - 20) (hashToBytes evp pk))) \<and>
   length (drop (length (hashToBytes evp pk) - 20) (hashToBytes evp pk)) = 20 \<and>
   publicKeyToAddress evp pk = ''0x'' @ drop 26 (hash evp pk) \<and>
   length (publicKeyToAddress evp pk) = 2 + 40 \<and>
   set (drop 2 (publicKeyToAddress evp pk)) \<subseteq> set ''0123456789abcdef''"
proof -
  let ?d = "hashToBytes evp pk"
  have len: "length ?d = 32" by (rule length_hashToBytes)
  have start: "unat ((of_nat (length ?d) :: 64 word) - 20) = 12"
    by (simp add: len)
  have addr: "publicKeyToAddress evp pk = ''0x'' @ concat (map put_hex_byte (drop 12 ?d))"
    by (simp add: publicKeyToAddress_def Let_def start address_loop_eq)
  have dr: "drop 24 (concat (map put_hex_byte ?d)) = concat (map put_hex_byte (drop 12 ?d))"
  proof -
    have "?d = take 12 ?d @ drop 12 ?d" by simp
    then have "concat (map put_hex_byte ?d)
                 = concat (map put_hex_byte (take 12 ?d)) @ concat (map put_hex_byte (drop 12 ?d))"
      by (metis concat_append map_append)
    moreover have "length (concat (map put_hex_byte (take 12 ?d))) = 24"
      by (simp add: length_concat_hex len)
    ultimately show ?thesis by simp
  qed
  have viahash: "publicKeyToAddress evp pk = ''0x'' @ drop 26 (hash evp pk)"
    by (simp add: addr hash_eq dr)
  have alen: "length (publicKeyToAddress evp pk) = 2 + 40"
    by (simp add: addr length_concat_hex len)
  have aset: "set (drop 2 (publicKeyToAddress evp pk)) \<subseteq> set ''0123456789abcdef''"
    using concat_hex_set [of "drop 12 ?d"] by (simp add: addr)
  from len addr viahash alen aset show ?thesis by simp
qed

text \<open>
  Claim C10. \<^verbatim>\<open>verifySignature\<close> returns true for every message, signature and public
  key, and neither its result nor what it prints depends on the signature or the key.
\<close>

theorem verifySignature_always_true:
  "snd (verifySignature evp message signature publicKey) = True \<and>
   verifySignature evp message signature publicKey
     = verifySignature evp message signature' publicKey'"
  by (simp add: verifySignature_def Let_def)

text \<open>
  Claim C5. The construction terminates for every input: the \<^verbatim>\<open>while\<close> loop of
  \<^verbatim>\<open>buildTree\<close>, run as a loop that may fail to return, does return, and what it returns
  is the levels of the constructed tree. A reduction of a level with more than one element
  is strictly shorter than the level; the loop went on from every level but the last only
  because that level had more than one element, and it stopped at a last level of length 1,
  or of length 0 on the empty input, where no reduction is made at all.
\<close>

theorem construction_terminates:
  "while_option (\<lambda>lvls. 1 < length (last lvls)) (reduce_step evp) [map (hash evp) data]
     = Some (levels (MerkleTree_new evp data)) \<and>
   (\<forall>l. 1 < length l \<longrightarrow> length (pair_loop evp l 0 []) < length l) \<and>
   (\<forall>i. i + 1 < length (levels (MerkleTree_new evp data)) \<longrightarrow>
        1 < length (levels (MerkleTree_new evp data) ! i)) \<and>
   length (last (levels (MerkleTree_new evp data))) = (if data = [] then 0 else 1) \<and>
   levels (MerkleTree_new evp []) = [[]]"
proof -
  let ?L = "levels (MerkleTree_new evp data)"
  have a: "while_option (\<lambda>lvls. 1 < length (last lvls)) (reduce_step evp) [map (hash evp) data]
             = Some ?L"
    by (simp only: build_loop_while levels_new)
  have b: "length (pair_loop evp l 0 []) < length l" if "1 < length l" for l
    using that by (simp add: length_pair_loop)
  have c: "1 < length (?L ! i)" if "i + 1 < length ?L" for i
    using levels_new_link [OF that] by simp
  have e: "levels (MerkleTree_new evp []) = [[]]"
    by (simp add: levels_new build_loop_stop)
  have d: "length (last ?L) = (if data = [] then 0 else 1)"
  proof (cases "data = []")
    case True
    with e show ?thesis by simp
  next
    case False
    from levels_new_last_ne [OF False, of evp] have "length (last ?L) \<noteq> 0" by simp
    with levels_new_last_le [of evp data] have "length (last ?L) = 1" by linarith
    with False show ?thesis by simp
  qed
  from a b c d e show ?thesis by blast
qed

theorem construction_terminates_witness:
  "1 < length [''x'', ''y'', ''z''] \<and>
   length (pair_loop codes_evp [''x'', ''y'', ''z''] 0 []) < length [''x'', ''y'', ''z''] \<and>
   0 + 1 < length (levels (MerkleTree_new codes_evp [''a'', ''b''])) \<and>
   1 < length (levels (MerkleTree_new codes_evp [''a'', ''b'']) ! 0) \<and>
   while_option (\<lambda>lvls. 1 < length (last lvls)) (reduce_step codes_evp)
       [map (hash codes_evp) [''a'', ''b'']]
     = Some (levels (MerkleTree_new codes_evp [''a'', ''b''])) \<and>
   length (last (levels (MerkleTree_new codes_evp [''a'', ''b'']))) = 1"
proof -
  have h1: "1 < length [''x'', ''y'', ''z'']" by simp
  have h2: "0 + 1 < length (levels (MerkleTree_new codes_evp [''a'', ''b'']))"
    by code_simp
  note ct = construction_terminates [of codes_evp "[''a'', ''b'']"]
  from ct have "\<forall>l. 1 < length l \<longrightarrow> length (pair_loop codes_evp l 0 []) < length l"
    by blast
  with h1 have c1: "length (pair_loop codes_evp [''x'', ''y'', ''z''] 0 [])
                      < length [''x'', ''y'', ''z'']"
    by blast
  from ct h2 have c2: "1 < length (levels (MerkleTree_new codes_evp [''a'', ''b'']) ! 0)"
    by blast
  from ct have c3: "while_option (\<lambda>lvls. 1 < length (last lvls)) (reduce_step codes_evp)
       [map (hash codes_evp) [''a'', ''b'']]
     = Some (levels (MerkleTree_new codes_evp [''a'', ''b'']))"
    by blast
  from ct have c4: "length (last (levels (MerkleTree_new codes_evp [''a'', ''b'']))) = 1"
    by simp
  from h1 c1 h2 c2 c3 c4 show ?thesis by blast
qed

text \<open>
  Claim C9. For a non-empty input the constructed tree has at least one level and its last
  level is not empty, so \<^verbatim>\<open>getRoot\<close> reads element 0 of the last level within bounds and
  returns it. For the empty input the levels are exactly one empty level, and the read of
  element 0 made by \<^verbatim>\<open>getRoot\<close> is out of bounds.
\<close>

theorem root_access_bounds:
  "(data \<noteq> [] \<longrightarrow>
      levels (MerkleTree_new evp data) \<noteq> [] \<and>
      0 < length (last (levels (MerkleTree_new evp data))) \<and>
      getRoot (MerkleTree_new evp data) = Some (last (levels (MerkleTree_new evp data)) ! 0)) \<and>
   levels (MerkleTree_new evp []) = [[]] \<and>
   \<not> 0 < length (last (levels (MerkleTree_new evp []))) \<and>
   getRoot (MerkleTree_new evp []) = None"
proof -
  let ?L = "levels (MerkleTree_new evp data)"
  have a: "?L \<noteq> [] \<and> 0 < length (last ?L) \<and> getRoot (MerkleTree_new evp data) = Some (last ?L ! 0)"
    if "data \<noteq> []"
    using levels_new_nonempty [of evp data] levels_new_last_ne [OF that, of evp]
    by (simp add: getRoot_def)
  have e: "levels (MerkleTree_new evp []) = [[]]"
    by (simp add: levels_new build_loop_stop)
  then have "getRoot (MerkleTree_new evp []) = None"
    by (simp add: getRoot_def)
  with a e show ?thesis by simp
qed

theorem root_access_bounds_witness:
  "[''a'', ''b'', ''c''] \<noteq> [] \<and>
   getRoot (MerkleTree_new codes_evp [''a'', ''b'', ''c''])
     = Some (last (levels (MerkleTree_new codes_evp [''a'', ''b'', ''c''])) ! 0) \<and>
   getRoot (MerkleTree_new codes_evp [''a'', ''b'', ''c''])
     = Some ''0x3078333037383336333133303330333033303330333033303330333033303330''"
proof -
  have h: "[''a'', ''b'', ''c''] \<noteq> ([] :: string list)" by simp
  have v: "getRoot (MerkleTree_new codes_evp [''a'', ''b'', ''c''])
     = Some ''0x3078333037383336333133303330333033303330333033303330333033303330''"
    by code_simp
  from root_access_bounds [of "[''a'', ''b'', ''c'']" codes_evp] h v
  show ?thesis by simp
qed

text \<open>
  Claim C8 says that no publicly invokable operation changes the stored levels of a
  constructed tree. \<^verbatim>\<open>buildTree\<close> is declared in the public part of the class: called on
  the tree constructed from one item, it leaves a tree with two levels instead of one.
\<close>

theorem buildTree_call_mutates_counterexample:
  "levels (fst (invoke codes_evp Call_buildTree (MerkleTree_new codes_evp [''a''])))
     \<noteq> levels (MerkleTree_new codes_evp [''a''])"
proof -
  have "length (levels (fst (invoke codes_evp Call_buildTree (MerkleTree_new codes_evp [''a''])))) = 2"
    by code_simp
  moreover have "length (levels (MerkleTree_new codes_evp [''a''])) = 1"
    by code_simp
  ultimately show ?thesis by auto
qed

text \<open>
  Claim C8, amended. A call of \<^verbatim>\<open>getRoot\<close> or \<^verbatim>\<open>printTree\<close> leaves the object as it
  was, and no public member function changes the stored leaves; a call of the public member
  function \<^verbatim>\<open>buildTree\<close> keeps the levels stored so far and appends the leaves to them
  as one more level, followed by the levels the loop adds.
\<close>

theorem public_calls_frame:
  "(c \<noteq> Call_buildTree \<longrightarrow> fst (invoke evp c t) = t) \<and>
   leaves (fst (invoke evp c t)) = leaves t \<and>
   (\<exists>ext. levels (fst (invoke evp Call_buildTree t)) = levels t @ leaves t # ext)"
proof -
  have a: "c \<noteq> Call_buildTree \<longrightarrow> fst (invoke evp c t) = t"
    by (cases c) simp_all
  have b: "leaves (fst (invoke evp c t)) = leaves t"
    by (cases c) (simp_all add: buildTree_def)
  from build_loop_prefix [of evp "levels t @ [leaves t]"] obtain ext where
    "build_loop evp (levels t @ [leaves t]) = (levels t @ [leaves t]) @ ext" by blast
  then have "levels (fst (invoke evp Call_buildTree t)) = levels t @ (leaves t # ext)"
    by (simp add: buildTree_def)
  then have c: "\<exists>ext. levels (fst (invoke evp Call_buildTree t)) = levels t @ leaves t # ext"
    by blast
  from a b c show ?thesis by blast
qed

theorem public_calls_frame_witness:
  "Call_printTree \<noteq> Call_buildTree \<and>
   fst (invoke codes_evp Call_printTree (MerkleTree_new codes_evp [''a'', ''b'']))
     = MerkleTree_new codes_evp [''a'', ''b'']"
  using public_calls_frame [of Call_printTree codes_evp "MerkleTree_new codes_evp [''a'', ''b'']"]
  by simp

end
